theory Spec2Isabelle
  imports Complex_Main "HOL-Library.Char_ord" "HOL-Library.List_Lexorder"
begin

section \<open>Inventory dashboard (Project\_1/app.py)\<close>

subsection \<open>Integer formatting\<close>

text \<open>
  Python's \<^verbatim>\<open>str(n)\<close> for a natural number: its decimal digits, most significant
  first, with no leading zero.
\<close>

fun str_nat :: "nat \<Rightarrow> string" where
  "str_nat n =
     (if n < 10 then [''0123456789'' ! n]
      else str_nat (n div 10) @ [''0123456789'' ! (n mod 10)])"

declare str_nat.simps [simp del]

text \<open>The format \<^verbatim>\<open>{i}\<close> of an f-string, for any Python integer.\<close>

definition str_int :: "int \<Rightarrow> string" where
  "str_int i = (if i < 0 then CHR ''-'' # str_nat (nat (- i)) else str_nat (nat i))"

definition zero_pad :: "nat \<Rightarrow> string \<Rightarrow> string" where
  "zero_pad w s = replicate (w - length s) (CHR ''0'') @ s"

text \<open>
  The format \<^verbatim>\<open>{i:03d}\<close>: at least three characters, zeros inserted after the sign;
  a longer number is printed in full.
\<close>

definition fmt_03d :: "int \<Rightarrow> string" where
  "fmt_03d i =
     (if i < 0 then CHR ''-'' # zero_pad 2 (str_nat (nat (- i)))
      else zero_pad 3 (str_nat (nat i)))"

subsection \<open>Constants and the random source\<close>

definition CATEGORIES :: "string list" where
  "CATEGORIES = [''Electronics'', ''Clothing'', ''Grocery'', ''Stationery'', ''Sports'']"

definition PRODUCT_NAMES :: "string list" where
  "PRODUCT_NAMES =
     [''Phone'', ''T-Shirt'', ''Bread'', ''Notebook'', ''Football'',
      ''Laptop'', ''Jeans'', ''Milk'', ''Pen'', ''Tennis Ball'',
      ''Tablet'', ''Jacket'', ''Eggs'', ''Marker'', ''Cricket Bat'',
      ''Headphones'', ''Shoes'', ''Butter'', ''Stapler'', ''Basketball'']"

text \<open>
  The module \<^verbatim>\<open>random\<close> is outside the program. Its state is modelled as a stream of
  natural numbers supplied from outside; each call consumes one number and maps it into
  the range the call asks for, so every result is one the real generator can return.
\<close>

type_synonym entropy = "nat \<Rightarrow> nat"

definition choice :: "'a list \<Rightarrow> nat \<Rightarrow> 'a" where
  "choice xs k = xs ! (k mod length xs)"

definition randint :: "int \<Rightarrow> int \<Rightarrow> nat \<Rightarrow> int" where
  "randint a b k = a + int (k mod nat (b - a + 1))"

subsection \<open>Records and the session state\<close>

record product =
  ProductID :: string
  Name :: string
  Category :: string
  QuantityAvailable :: int
  ReorderLevel :: int
  Status :: string

text \<open>
  One turn of the loop of \<^verbatim>\<open>generate_sample_data\<close>, for the loop variable \<open>i\<close>
  (counted from 1): five draws, in the order of the source.
\<close>

definition sample_item :: "entropy \<Rightarrow> int \<Rightarrow> product" where
  "sample_item rnd i =
     (let k = 5 * nat (i - 1);
          category = choice CATEGORIES (rnd k);
          name = choice PRODUCT_NAMES (rnd (k + 1)) @ ''-'' @ str_int (randint 100 999 (rnd (k + 2)));
          quantity = randint 0 100 (rnd (k + 3));
          reorder_level = randint 5 30 (rnd (k + 4))
      in \<lparr>ProductID = CHR ''P'' # fmt_03d i,
          Name = name,
          Category = category,
          QuantityAvailable = quantity,
          ReorderLevel = reorder_level,
          Status = (if quantity \<le> reorder_level then ''Low Stock'' else ''In Stock'')\<rparr>)"

text \<open>\<^verbatim>\<open>for i in range(1, num_items + 1)\<close>: the list is empty when \<open>num_items < 1\<close>.\<close>

definition generate_sample_data :: "entropy \<Rightarrow> int \<Rightarrow> product list" where
  "generate_sample_data rnd num_items = map (sample_item rnd) [1..num_items]"

record session_state =
  data :: "product list"
  next_id :: int

text \<open>
  \<^verbatim>\<open>initialize_data\<close> runs first in every pass of the script. The two keys of the
  session may be absent (\<open>None\<close>); afterwards both are present. The sample has the
  default size 20.
\<close>

definition initialize_data :: "entropy \<Rightarrow> product list option \<Rightarrow> int option \<Rightarrow> session_state" where
  "initialize_data rnd d n =
     (let d' = (case d of None \<Rightarrow> generate_sample_data rnd 20 | Some xs \<Rightarrow> xs);
          n' = (case n of None \<Rightarrow> int (length d') + 1 | Some k \<Rightarrow> k)
      in \<lparr>data = d', next_id = n'\<rparr>)"

datatype message = StError string | StSuccess string | StWarning string

text \<open>
  \<^verbatim>\<open>add_product\<close>: the empty string is the only falsy name a text input returns. The
  result is the message shown and the session afterwards.
\<close>

definition add_product ::
    "string \<Rightarrow> string \<Rightarrow> string \<Rightarrow> int \<Rightarrow> int \<Rightarrow> session_state \<Rightarrow> message \<times> session_state" where
  "add_product product_id name category quantity reorder_level s =
     (if name = [] then (StError ''Please enter a product name'', s)
      else
        let new_product =
              \<lparr>ProductID = product_id,
               Name = name,
               Category = category,
               QuantityAvailable = quantity,
               ReorderLevel = reorder_level,
               Status = (if quantity \<le> reorder_level then ''Low Stock'' else ''In Stock'')\<rparr>
        in (StSuccess (''Product '' @ [CHR 0x27] @ name @ [CHR 0x27] @ '' added successfully!''),
            s\<lparr>data := data s @ [new_product], next_id := next_id s + 1\<rparr>))"

text \<open>
  The disabled text input of the form shows, and returns, the identifier made from the
  counter.
\<close>

definition product_id_field :: "session_state \<Rightarrow> string" where
  "product_id_field s = CHR ''P'' # fmt_03d (next_id s)"

text \<open>
  What the user did in one pass of the script: nothing, submitted the form (name,
  category, quantity, reorder level), or pressed one of the two buttons. Sample
  generation draws from the random source.
\<close>

datatype event =
    NoEvent
  | AddProductSubmitted string string int int
  | GenerateSampleClicked entropy
  | ClearAllClicked

definition render_sidebar :: "event \<Rightarrow> session_state \<Rightarrow> message option \<times> session_state" where
  "render_sidebar ev s =
     (case ev of
        NoEvent \<Rightarrow> (None, s)
      | AddProductSubmitted name category quantity_available reorder_level \<Rightarrow>
          (let (m, s') = add_product (product_id_field s) name category
                           quantity_available reorder_level s
           in (Some m, s'))
      | GenerateSampleClicked rnd \<Rightarrow>
          (let d = generate_sample_data rnd 20
           in (None, s\<lparr>data := d, next_id := int (length d) + 1\<rparr>))
      | ClearAllClicked \<Rightarrow> (None, s\<lparr>data := [], next_id := 1\<rparr>))"

text \<open>A session: the first pass initialises the empty session, then one event per pass.\<close>

definition session_after :: "entropy \<Rightarrow> event list \<Rightarrow> session_state" where
  "session_after rnd evs =
     foldl (\<lambda>s ev. snd (render_sidebar ev s)) (initialize_data rnd None None) evs"

text \<open>The status a record must carry, as a function of its two quantities.\<close>

definition status_derived :: "product \<Rightarrow> bool" where
  "status_derived p =
     (Status p = (if QuantityAvailable p \<le> ReorderLevel p then ''Low Stock'' else ''In Stock''))"

text \<open>The number a string of decimal digits stands for (used to tell identifiers apart).\<close>

definition digits_value :: "string \<Rightarrow> nat" where
  "digits_value s = foldl (\<lambda>a c. 10 * a + (of_char c - 48)) 0 s"


section \<open>Missing-data cleaner (Project\_2/app.py)\<close>

subsection \<open>Columns and tables\<close>

text \<open>
  A float64 value other than NaN: a finite number or one of the two infinities (a CSV
  file can carry \<^verbatim>\<open>inf\<close>, and a sum can overflow to it). The finite values are
  written as rationals; the two zeros of the format are one value. The order is the
  one of the numbers, with the infinities at the two ends.
\<close>

datatype float64 = NegInf | Finite rat | PosInf

instantiation float64 :: linorder
begin

fun less_eq_float64 :: "float64 \<Rightarrow> float64 \<Rightarrow> bool" where
  "less_eq_float64 NegInf y = True"
| "less_eq_float64 (Finite a) NegInf = False"
| "less_eq_float64 (Finite a) (Finite b) = (a \<le> b)"
| "less_eq_float64 (Finite a) PosInf = True"
| "less_eq_float64 PosInf PosInf = True"
| "less_eq_float64 PosInf y = False"

definition less_float64 :: "float64 \<Rightarrow> float64 \<Rightarrow> bool" where
  "less_float64 x y = (x \<le> y \<and> \<not> y \<le> x)"

instance
proof
  fix x y z :: float64
  show "(x < y) = (x \<le> y \<and> \<not> y \<le> x)" by (simp add: less_float64_def)
  show "x \<le> x" by (cases x) simp_all
  show "x \<le> y \<Longrightarrow> y \<le> z \<Longrightarrow> x \<le> z" by (cases x; cases y; cases z) simp_all
  show "x \<le> y \<Longrightarrow> y \<le> x \<Longrightarrow> x = y" by (cases x; cases y) simp_all
  show "x \<le> y \<or> y \<le> x" by (cases x; cases y) auto
qed

end

text \<open>
  A column as \<^verbatim>\<open>pd.read_csv\<close> delivers it: its dtype and its cells. Columns of
  dtype int64 and bool have no representation for a missing cell; a float64 column
  holds float64 values and NaN, an object column holds text and NaN (an object column
  of booleans is not modelled). A missing cell is \<open>None\<close>.
\<close>

datatype series =
    Int64 "int list"
  | Float64 "float64 option list"
  | Boolean "bool list"
  | Object "string option list"

text \<open>
  A table is the list of its columns, each under its label. \<^verbatim>\<open>read_csv\<close> makes the
  labels distinct (a repeated header is renamed); the script relies on it when it
  reads and writes a column by its label.
\<close>

type_synonym dataframe = "(string \<times> series) list"

definition well_formed :: "dataframe \<Rightarrow> bool" where
  "well_formed df = distinct (map fst df)"

subsection \<open>The library\<close>

text \<open>
  The script runs on the pandas it finds; the source fixes no version. What the
  properties below depend on is taken as a parameter:
  \<^item> whether the library works with copy-on-write (pandas from version 3 on). Without
    it, \<^verbatim>\<open>df[col]\<close> is a view of the table and an in-place method of it changes the
    table; with it, \<^verbatim>\<open>df[col]\<close> is a new object and the in-place method changes that
    object only;
  \<^item> the float64 that \<^verbatim>\<open>mean()\<close> and \<^verbatim>\<open>median()\<close> return on a numeric column
    (\<open>None\<close> is NaN). They are computed in float64 arithmetic: the result is the
    arithmetic mean (the middle value) of the present cells only up to rounding, it
    is an infinity when the sum overflows and NaN when opposite infinities meet. The
    order of the additions is the library's own, so the value is not computed here.
\<close>

record pandas =
  copy_on_write :: bool
  lib_mean :: "series \<Rightarrow> float64 option"
  lib_median :: "series \<Rightarrow> float64 option"

datatype error = KeyError | TypeError

text \<open>\<^verbatim>\<open>df[col]\<close> reads the column under a label.\<close>

fun getitem :: "dataframe \<Rightarrow> string \<Rightarrow> error + series" where
  "getitem [] col = Inl KeyError"
| "getitem ((n, s) # cs) col = (if n = col then Inr s else getitem cs col)"

text \<open>The column under a label replaced by another one.\<close>

fun setitem :: "string \<Rightarrow> series \<Rightarrow> dataframe \<Rightarrow> dataframe" where
  "setitem col v [] = []"
| "setitem col v ((n, s) # cs) = (if n = col then (n, v) # cs else (n, s) # setitem col v cs)"

text \<open>\<^verbatim>\<open>.isnull().sum()\<close> of a column.\<close>

definition isnull_sum :: "series \<Rightarrow> nat" where
  "isnull_sum s =
     (case s of
        Int64 xs \<Rightarrow> 0
      | Float64 xs \<Rightarrow> count_list xs None
      | Boolean xs \<Rightarrow> 0
      | Object xs \<Rightarrow> count_list xs None)"

text \<open>\<^verbatim>\<open>pd.api.types.is_numeric_dtype\<close>: true of int64, float64 and bool.\<close>

definition is_numeric_dtype :: "series \<Rightarrow> bool" where
  "is_numeric_dtype s = (case s of Object xs \<Rightarrow> False | _ \<Rightarrow> True)"

text \<open>Membership in \<^verbatim>\<open>select_dtypes(include=[np.number])\<close>: int64 and float64, not bool.\<close>

definition is_np_number :: "series \<Rightarrow> bool" where
  "is_np_number s = (case s of Int64 xs \<Rightarrow> True | Float64 xs \<Rightarrow> True | _ \<Rightarrow> False)"

text \<open>The present cells of a column, in row order.\<close>

definition dropna :: "'a option list \<Rightarrow> 'a list" where
  "dropna xs = concat (map (\<lambda>c. case c of None \<Rightarrow> [] | Some x \<Rightarrow> [x]) xs)"

text \<open>
  A Python value a column method returns: NaN, a float, an int, a bool or a string.
\<close>

datatype scalar = NaN | FloatVal float64 | IntVal int | BoolVal bool | StrVal string

definition float_result :: "float64 option \<Rightarrow> scalar" where
  "float_result r = (case r of None \<Rightarrow> NaN | Some x \<Rightarrow> FloatVal x)"

text \<open>
  \<^verbatim>\<open>mean()\<close> and \<^verbatim>\<open>median()\<close> skip missing cells. On a float64 column with no
  cell left the result is NaN, whatever the library's arithmetic; otherwise it is the
  library's float64. On a text column both raise; the script calls them on numeric
  dtypes only.
\<close>

definition series_mean :: "pandas \<Rightarrow> series \<Rightarrow> error + scalar" where
  "series_mean lib s =
     (case s of
        Int64 xs \<Rightarrow> Inr (float_result (lib_mean lib s))
      | Float64 xs \<Rightarrow> Inr (if dropna xs = [] then NaN else float_result (lib_mean lib s))
      | Boolean xs \<Rightarrow> Inr (float_result (lib_mean lib s))
      | Object xs \<Rightarrow> Inl TypeError)"

definition series_median :: "pandas \<Rightarrow> series \<Rightarrow> error + scalar" where
  "series_median lib s =
     (case s of
        Int64 xs \<Rightarrow> Inr (float_result (lib_median lib s))
      | Float64 xs \<Rightarrow> Inr (if dropna xs = [] then NaN else float_result (lib_median lib s))
      | Boolean xs \<Rightarrow> Inr (float_result (lib_median lib s))
      | Object xs \<Rightarrow> Inl TypeError)"

text \<open>
  \<^verbatim>\<open>mode()\<close> drops the missing cells and returns every value of the highest
  count, sorted in ascending order (numbers by size, text by code point); the
  result is empty exactly when no cell is present. It counts and compares and does no
  arithmetic.
\<close>

definition max_count :: "'a list \<Rightarrow> nat" where
  "max_count xs = fold max (map (count_list xs) xs) 0"

definition mode_values :: "'a::linorder list \<Rightarrow> 'a list" where
  "mode_values xs = sort (filter (\<lambda>v. count_list xs v = max_count xs) (remdups xs))"

definition series_mode :: "series \<Rightarrow> scalar list" where
  "series_mode s =
     (case s of
        Int64 xs \<Rightarrow> map IntVal (mode_values xs)
      | Float64 xs \<Rightarrow> map FloatVal (mode_values (dropna xs))
      | Boolean xs \<Rightarrow> map BoolVal (mode_values xs)
      | Object xs \<Rightarrow> map StrVal (mode_values (dropna xs)))"

text \<open>
  \<^verbatim>\<open>fillna(value)\<close> puts the value into every missing cell. The script computes the
  value from the column it fills, so a float meets a float64 column and a string an
  object column. Filling with NaN changes nothing, and a column of dtype int64 or
  bool has no cell to fill.
\<close>

definition fill_missing :: "'a \<Rightarrow> 'a option list \<Rightarrow> 'a option list" where
  "fill_missing v xs = map (\<lambda>c. case c of None \<Rightarrow> Some v | Some x \<Rightarrow> Some x) xs"

fun fillna :: "scalar \<Rightarrow> series \<Rightarrow> series" where
  "fillna (FloatVal v) (Float64 xs) = Float64 (fill_missing v xs)"
| "fillna (StrVal v) (Object xs) = Object (fill_missing v xs)"
| "fillna v s = s"

subsection \<open>The Clean Data block\<close>

datatype filling_method = Mean | Median | Mode

text \<open>
  The chain of \<^verbatim>\<open>if\<close>/\<^verbatim>\<open>elif\<close> that chooses \<^verbatim>\<open>filled_value\<close>; \<open>None\<close> is
  Python's \<^verbatim>\<open>None\<close>. The conditions are tested in the order of the source.
\<close>

definition filled_value :: "pandas \<Rightarrow> filling_method \<Rightarrow> series \<Rightarrow> error + scalar option" where
  "filled_value lib fill_method s =
     (if fill_method = Mean \<and> is_numeric_dtype s then
        (case series_mean lib s of Inl e \<Rightarrow> Inl e | Inr v \<Rightarrow> Inr (Some v))
      else if fill_method = Median \<and> is_numeric_dtype s then
        (case series_median lib s of Inl e \<Rightarrow> Inl e | Inr v \<Rightarrow> Inr (Some v))
      else if fill_method = Mode then
        (case series_mode s of [] \<Rightarrow> Inr None | v # vs \<Rightarrow> Inr (Some v))
      else Inr None)"

text \<open>
  The body of the loop, for one label, on the table \<^verbatim>\<open>cleaned_df\<close> names. The last
  line is \<^verbatim>\<open>cleaned_df[col].fillna(filled_value, inplace=True)\<close>: without
  copy-on-write it replaces the column of the table; with copy-on-write it fills a
  temporary object and the table stays as it is.
\<close>

definition process_col :: "pandas \<Rightarrow> filling_method \<Rightarrow> string \<Rightarrow> dataframe \<Rightarrow> error + dataframe" where
  "process_col lib fill_method col cleaned =
     (case getitem cleaned col of
        Inl e \<Rightarrow> Inl e
      | Inr s \<Rightarrow>
          if isnull_sum s > 0 then
            (case filled_value lib fill_method s of
               Inl e \<Rightarrow> Inl e
             | Inr None \<Rightarrow> Inr cleaned
             | Inr (Some v) \<Rightarrow>
                 if copy_on_write lib then Inr cleaned
                 else Inr (setitem col (fillna v s) cleaned))
          else Inr cleaned)"

text \<open>
  Tables are objects in a store, named by their address. \<^verbatim>\<open>df.copy()\<close> makes a new
  object with the same contents at a fresh address.
\<close>

type_synonym addr = nat

type_synonym store = "dataframe list"

definition df_copy :: "addr \<Rightarrow> store \<Rightarrow> addr \<times> store" where
  "df_copy a h = (length h, h @ [h ! a])"

text \<open>
  The loop \<^verbatim>\<open>for col in cols_to_process\<close>: every turn reads and writes the object at
  the address \<^verbatim>\<open>cleaned_df\<close> holds.
\<close>

fun fill_loop :: "pandas \<Rightarrow> filling_method \<Rightarrow> string list \<Rightarrow> addr \<Rightarrow> store \<Rightarrow> error + store" where
  "fill_loop lib fill_method [] a h = Inr h"
| "fill_loop lib fill_method (col # cols) a h =
     (case process_col lib fill_method col (h ! a) of
        Inl e \<Rightarrow> Inl e
      | Inr d \<Rightarrow> fill_loop lib fill_method cols a (h[a := d]))"

definition cols_to_process :: "bool \<Rightarrow> dataframe \<Rightarrow> string list" where
  "cols_to_process exclude_cols cleaned =
     (if exclude_cols then map fst (filter (\<lambda>c. is_np_number (snd c)) cleaned)
      else map fst cleaned)"

text \<open>
  The block run when the button is pressed, up to the end of the loop: \<open>df\<close> is the
  address of the uploaded table. The result is the address of the cleaned table and
  the store afterwards, or the exception that ended the block.
\<close>

definition clean_data ::
    "pandas \<Rightarrow> filling_method \<Rightarrow> bool \<Rightarrow> addr \<Rightarrow> store \<Rightarrow> error + (addr \<times> store)" where
  "clean_data lib fill_method exclude_cols df h =
     (let (cleaned_df, h1) = df_copy df h;
          cols = cols_to_process exclude_cols (h1 ! cleaned_df)
      in case fill_loop lib fill_method cols cleaned_df h1 of
           Inl e \<Rightarrow> Inl e
         | Inr h2 \<Rightarrow> Inr (cleaned_df, h2))"

text \<open>
  The imputation engine as a function from table to table: the block run in a store
  that holds the table alone, and the cleaned table read from the store it leaves.
\<close>

definition impute :: "pandas \<Rightarrow> filling_method \<Rightarrow> bool \<Rightarrow> dataframe \<Rightarrow> error + dataframe" where
  "impute lib fill_method exclude_cols t =
     (case clean_data lib fill_method exclude_cols 0 [t] of
        Inl e \<Rightarrow> Inl e
      | Inr (cleaned_df, h) \<Rightarrow> Inr (h ! cleaned_df))"

text \<open>\<^verbatim>\<open>cleaned_df.isnull().sum().sum()\<close> and the message shown for it.\<close>

definition remaining_missing :: "dataframe \<Rightarrow> nat" where
  "remaining_missing cleaned = sum_list (map (\<lambda>c. isnull_sum (snd c)) cleaned)"

definition report :: "dataframe \<Rightarrow> message" where
  "report cleaned =
     (if remaining_missing cleaned = 0 then StSuccess ''All missing values have been filled!''
      else StWarning (''There are still '' @ str_nat (remaining_missing cleaned) @
             '' missing values that couldn'' @ [CHR 0x27] @
             ''t be filled with the selected method.''))"

subsection \<open>Auxiliary notions for stating the properties\<close>

text \<open>What the loop does to one column that is in scope.\<close>

definition fill_col :: "pandas \<Rightarrow> filling_method \<Rightarrow> series \<Rightarrow> series" where
  "fill_col lib fill_method s =
     (if isnull_sum s > 0 then
        (case filled_value lib fill_method s of
           Inr (Some v) \<Rightarrow> if copy_on_write lib then s else fillna v s
         | _ \<Rightarrow> s)
      else s)"

text \<open>
  Whether the loop visits a column, and the table the block leaves: every visited
  column treated by the loop body, the others as they were.
\<close>

definition in_scope :: "bool \<Rightarrow> series \<Rightarrow> bool" where
  "in_scope exclude_cols s = (if exclude_cols then is_np_number s else True)"

definition fill_table :: "pandas \<Rightarrow> filling_method \<Rightarrow> bool \<Rightarrow> dataframe \<Rightarrow> dataframe" where
  "fill_table lib fill_method exclude_cols t =
     map (\<lambda>c. if in_scope exclude_cols (snd c) then (fst c, fill_col lib fill_method (snd c)) else c) t"

text \<open>
  The tie rule in the words of the specification: among the most frequent present
  values, the one met first in row order.
\<close>

definition spec_mode_first_encountered :: "'a list \<Rightarrow> 'a option" where
  "spec_mode_first_encountered xs = find (\<lambda>v. count_list xs v = max_count xs) xs"

text \<open>The example table of the specification and the table it expects back.\<close>

definition example_table :: dataframe where
  "example_table =
     [(''Age'', Float64 [Some (Finite 28), None, Some (Finite 30)]),
      (''Salary'', Float64 [None, Some (Finite 45000), Some (Finite 50000)])]"

definition example_cleaned :: dataframe where
  "example_cleaned =
     [(''Age'', Float64 [Some (Finite 28), Some (Finite 29), Some (Finite 30)]),
      (''Salary'', Float64 [Some (Finite 47500), Some (Finite 45000), Some (Finite 50000)])]"

text \<open>
  Two libraries to run the examples with: one without and one with copy-on-write.
  Their mean and median are computed without rounding, over the finite cells. On the
  tables of the examples (a few whole numbers, no infinity) float64 arithmetic is
  exact, so pandas returns the same values there.
\<close>

definition finite_cells :: "series \<Rightarrow> rat list" where
  "finite_cells s =
     (case s of
        Int64 xs \<Rightarrow> map of_int xs
      | Float64 xs \<Rightarrow> concat (map (\<lambda>c. case c of Some (Finite r) \<Rightarrow> [r] | _ \<Rightarrow> []) xs)
      | Boolean xs \<Rightarrow> map of_bool xs
      | Object xs \<Rightarrow> [])"

definition exact_mean :: "series \<Rightarrow> float64 option" where
  "exact_mean s =
     (let xs = finite_cells s
      in if xs = [] then None else Some (Finite (sum_list xs / of_nat (length xs))))"

definition exact_median :: "series \<Rightarrow> float64 option" where
  "exact_median s =
     (let ys = sort (finite_cells s); n = length ys
      in if n = 0 then None
         else if odd n then Some (Finite (ys ! (n div 2)))
         else Some (Finite ((ys ! (n div 2 - 1) + ys ! (n div 2)) / 2)))"

definition pandas_2 :: pandas where
  "pandas_2 = \<lparr>copy_on_write = False, lib_mean = exact_mean, lib_median = exact_median\<rparr>"

definition pandas_3 :: pandas where
  "pandas_3 = \<lparr>copy_on_write = True, lib_mean = exact_mean, lib_median = exact_median\<rparr>"

section \<open>Properties of the inventory dashboard\<close>

subsection \<open>Identifiers are told apart by their number\<close>

lemma digit_char_value: "d < 10 \<Longrightarrow> of_char (''0123456789'' ! d) - 48 = (d::nat)"
proof -
  assume "d < 10"
  then have "d \<in> {0, 1, 2, 3, 4, 5, 6, 7, 8, 9}" by auto
  then show ?thesis by auto
qed

lemma digits_value_snoc: "digits_value (s @ [c]) = 10 * digits_value s + (of_char c - 48)"
  by (simp add: digits_value_def)

lemma digits_value_str_nat: "digits_value (str_nat n) = n"
proof (induction n rule: str_nat.induct)
  case (1 n)
  show ?case
  proof (cases "n < 10")
    case True
    then show ?thesis
      using digit_char_value [of n] by (simp add: str_nat.simps [of n] digits_value_def)
  next
    case False
    then have "digits_value (str_nat (n div 10)) = n div 10" using "1.IH" by simp
    moreover have "n mod 10 < 10" by simp
    ultimately show ?thesis
      using False digit_char_value [of "n mod 10"]
      by (simp add: str_nat.simps [of n] digits_value_snoc)
  qed
qed

lemma digits_value_zeros:
  "foldl (\<lambda>a c. 10 * a + (of_char c - 48)) (0::nat) (replicate k (CHR ''0'')) = 0"
  by (induction k) simp_all

lemma digits_value_zero_pad: "digits_value (zero_pad w s) = digits_value s"
  by (simp add: zero_pad_def digits_value_def digits_value_zeros)

lemma digits_value_fmt_03d: "0 \<le> i \<Longrightarrow> digits_value (fmt_03d i) = nat i"
  by (simp add: fmt_03d_def digits_value_zero_pad digits_value_str_nat)

lemma fmt_03d_inj: "0 \<le> i \<Longrightarrow> 0 \<le> j \<Longrightarrow> fmt_03d i = fmt_03d j \<Longrightarrow> i = j"
  using digits_value_fmt_03d [of i] digits_value_fmt_03d [of j] by simp

lemma fmt_03d_1: "fmt_03d 1 = ''001''"
  by code_simp

lemma fmt_03d_3: "fmt_03d 3 = ''003''"
  by code_simp

lemma fmt_03d_21: "fmt_03d 21 = ''021''"
  by code_simp

lemma ids2: "map (\<lambda>i. CHR ''P'' # fmt_03d i) [1..2] = [''P001'', ''P002'']"
  by code_simp

lemma ids20:
  "map (\<lambda>i. CHR ''P'' # fmt_03d i) [1..20] =
     [''P001'', ''P002'', ''P003'', ''P004'', ''P005'', ''P006'', ''P007'', ''P008'', ''P009'',
      ''P010'', ''P011'', ''P012'', ''P013'', ''P014'', ''P015'', ''P016'', ''P017'', ''P018'',
      ''P019'', ''P020'']"
  by code_simp

lemma ids_generate:
  "map ProductID (generate_sample_data rnd n) = map (\<lambda>i. CHR ''P'' # fmt_03d i) [1..n]"
  by (simp add: generate_sample_data_def sample_item_def Let_def)

lemma next_id_fresh:
  "CHR ''P'' # fmt_03d (int (length (generate_sample_data rnd n)) + 1)
     \<notin> set (map ProductID (generate_sample_data rnd n))"
proof
  assume "CHR ''P'' # fmt_03d (int (length (generate_sample_data rnd n)) + 1)
            \<in> set (map ProductID (generate_sample_data rnd n))"
  then obtain i where i: "1 \<le> i" "i \<le> n"
      "fmt_03d (int (length (generate_sample_data rnd n)) + 1) = fmt_03d i"
    unfolding ids_generate by auto
  have len: "int (length (generate_sample_data rnd n)) = n"
    using i by (simp add: generate_sample_data_def)
  from i(3) have "n + 1 = i"
    unfolding len using fmt_03d_inj [of "n + 1" i] i(1,2) by simp
  with i(2) show False by simp
qed

subsection \<open>The status is derived at every creation\<close>

lemma status_generate: "list_all status_derived (generate_sample_data rnd n)"
  by (simp add: generate_sample_data_def list_all_iff status_derived_def sample_item_def Let_def)

lemma status_step:
  "list_all status_derived (data s) \<Longrightarrow> list_all status_derived (data (snd (render_sidebar ev s)))"
proof (cases ev)
  case (AddProductSubmitted name category q r)
  assume "list_all status_derived (data s)"
  then show ?thesis
    by (simp add: AddProductSubmitted render_sidebar_def add_product_def Let_def)
       (simp add: status_derived_def)
next
  case (GenerateSampleClicked rnd)
  then show ?thesis by (simp add: render_sidebar_def Let_def status_generate)
qed (simp_all add: render_sidebar_def)

lemma status_foldl:
  "list_all status_derived (data s) \<Longrightarrow>
   list_all status_derived (data (foldl (\<lambda>s ev. snd (render_sidebar ev s)) s evs))"
  by (induction evs arbitrary: s) (simp_all add: status_step)

text \<open>
  C7. In every session, whatever the random source and whatever the user did (any
  sequence of form submissions, sample generations and clear-alls after the first
  initialisation), every record of the collection carries the status
  \<open>Low Stock\<close> when its quantity available is at most its reorder level and
  \<open>In Stock\<close> otherwise. Both creation sites (the form and the sample
  generator) are covered, since every reachable collection is.
\<close>

theorem status_derived_in_every_session:
  "list_all status_derived (data (session_after rnd evs))"
  unfolding session_after_def
  by (rule status_foldl) (simp add: initialize_data_def Let_def status_generate)

text \<open>
  The scenario of the specification: after a clear-all, adding a product with
  quantity 3 and reorder level 5 stores the record with status \<open>Low Stock\<close>.
\<close>

theorem status_derived_in_every_session_witness:
  "data (session_after (\<lambda>_. 0) [ClearAllClicked, AddProductSubmitted ''Pen'' ''Stationery'' 3 5]) =
     [\<lparr>ProductID = ''P001'', Name = ''Pen'', Category = ''Stationery'',
       QuantityAvailable = 3, ReorderLevel = 5, Status = ''Low Stock''\<rparr>]
   \<and> list_all status_derived
        (data (session_after (\<lambda>_. 0) [ClearAllClicked, AddProductSubmitted ''Pen'' ''Stationery'' 3 5]))"
  using status_derived_in_every_session
          [of "\<lambda>_. 0" "[ClearAllClicked, AddProductSubmitted ''Pen'' ''Stationery'' 3 5]"]
  by (simp add: session_after_def render_sidebar_def add_product_def product_id_field_def fmt_03d_1)

text \<open>
  C8. Adding a product with the empty name returns the error message
  \<open>Please enter a product name\<close> and the session as it was: no record is
  appended and the identifier counter keeps its value. The same holds for the
  form submission that calls it.
\<close>

theorem add_product_empty_name_rejected:
  "add_product pid [] category q r s = (StError ''Please enter a product name'', s)
   \<and> render_sidebar (AddProductSubmitted [] category q r) s =
       (Some (StError ''Please enter a product name''), s)"
  by (simp add: add_product_def render_sidebar_def)

text \<open>
  C9. After clear-all, from any session, the collection is empty, the counter is 1 and
  the identifier offered by the form is \<open>P001\<close>; a product added next is stored
  under \<open>P001\<close>.
\<close>

theorem clear_all_resets:
  "data (snd (render_sidebar ClearAllClicked s)) = []
   \<and> next_id (snd (render_sidebar ClearAllClicked s)) = 1
   \<and> product_id_field (snd (render_sidebar ClearAllClicked s)) = ''P001''
   \<and> map ProductID (data (snd (render_sidebar (AddProductSubmitted (c # name) category q r)
        (snd (render_sidebar ClearAllClicked s))))) = [''P001'']"
  by (simp add: render_sidebar_def product_id_field_def add_product_def fmt_03d_1)

text \<open>
  C10. The records \<^verbatim>\<open>generate_sample_data\<close> produces carry the identifiers
  \<open>P\<close> followed by the zero-padded numbers 1 to N, in order, and the identifier
  made from N + 1 is none of them. After the regenerate button (N = 20) the
  identifiers are \<open>P001\<close> to \<open>P020\<close>, the counter is 21, and the identifier the
  form offers next, \<open>P021\<close>, is not in the collection.
\<close>

theorem sample_ids_sequential_and_next_fresh:
  "map ProductID (generate_sample_data rnd n) = map (\<lambda>i. CHR ''P'' # fmt_03d i) [1..n]
   \<and> CHR ''P'' # fmt_03d (int (length (generate_sample_data rnd n)) + 1)
        \<notin> set (map ProductID (generate_sample_data rnd n))
   \<and> map ProductID (data (snd (render_sidebar (GenerateSampleClicked rnd) s))) =
       [''P001'', ''P002'', ''P003'', ''P004'', ''P005'', ''P006'', ''P007'', ''P008'', ''P009'',
        ''P010'', ''P011'', ''P012'', ''P013'', ''P014'', ''P015'', ''P016'', ''P017'', ''P018'',
        ''P019'', ''P020'']
   \<and> next_id (snd (render_sidebar (GenerateSampleClicked rnd) s)) = 21
   \<and> product_id_field (snd (render_sidebar (GenerateSampleClicked rnd) s)) = ''P021''
   \<and> product_id_field (snd (render_sidebar (GenerateSampleClicked rnd) s))
        \<notin> set (map ProductID (data (snd (render_sidebar (GenerateSampleClicked rnd) s))))"
proof -
  let ?s = "snd (render_sidebar (GenerateSampleClicked rnd) s)"
  have d: "data ?s = generate_sample_data rnd 20"
    by (simp add: render_sidebar_def Let_def)
  have n: "next_id ?s = 21"
    by (simp add: render_sidebar_def Let_def generate_sample_data_def)
  have p: "product_id_field ?s = ''P021''"
    by (simp add: product_id_field_def n fmt_03d_21)
  have ids: "map ProductID (data ?s) =
      [''P001'', ''P002'', ''P003'', ''P004'', ''P005'', ''P006'', ''P007'', ''P008'', ''P009'',
       ''P010'', ''P011'', ''P012'', ''P013'', ''P014'', ''P015'', ''P016'', ''P017'', ''P018'',
       ''P019'', ''P020'']"
    unfolding d ids_generate by (rule ids20)
  have fresh: "product_id_field ?s \<notin> set (map ProductID (data ?s))"
    unfolding ids p by simp
  show ?thesis
    using ids_generate next_id_fresh n p ids fresh by blast
qed

theorem sample_ids_sequential_and_next_fresh_witness:
  "map ProductID (generate_sample_data (\<lambda>k. 7 * k + 3) 2) = [''P001'', ''P002'']
   \<and> ''P003'' \<notin> set (map ProductID (generate_sample_data (\<lambda>k. 7 * k + 3) 2))"
  using sample_ids_sequential_and_next_fresh
          [of "\<lambda>k. 7 * k + 3" 2 "\<lparr>data = [], next_id = 1\<rparr>"]
  by (simp add: ids2 fmt_03d_3)

section \<open>Properties of the missing-data cleaner\<close>


subsection \<open>Reading and writing a column by its label\<close>

lemma getitem_distinct:
  "distinct (map fst t) \<Longrightarrow> (n, s) \<in> set t \<Longrightarrow> getitem t n = Inr s"
  by (induction t) (auto simp: rev_image_eqI)

lemma setitem_map:
  "distinct (map fst t) \<Longrightarrow>
   setitem n v t = map (\<lambda>c. if fst c = n then (fst c, v) else c) t"
proof (induction t)
  case Nil
  then show ?case by simp
next
  case (Cons c t)
  obtain k s where c: "c = (k, s)" by (cases c)
  show ?case
  proof (cases "k = n")
    case True
    with Cons.prems c have "\<forall>d\<in>set t. fst d \<noteq> n" by auto
    then have "map (\<lambda>c. if fst c = n then (fst c, v) else c) t = t"
      by (simp add: map_idI)
    with True c show ?thesis by simp
  next
    case False
    with Cons c show ?thesis by simp
  qed
qed

lemma filled_value_total: "\<exists>r. filled_value lib m s = Inr r"
  by (cases m; cases s) (simp_all add: filled_value_def is_numeric_dtype_def series_mean_def series_median_def split: list.split)

lemma process_col_map:
  assumes "distinct (map fst t)" and "col \<in> fst ` set t"
  shows "process_col lib m col t = Inr (map (\<lambda>c. if fst c = col then (fst c, fill_col lib m (snd c)) else c) t)"
proof -
  from assms(2) obtain s where s: "(col, s) \<in> set t" by force
  have g: "getitem t col = Inr s" by (rule getitem_distinct [OF assms(1) s])
  have only: "\<And>c. c \<in> set t \<Longrightarrow> fst c = col \<Longrightarrow> snd c = s"
    using assms(1) s by (metis eq_key_imp_eq_value prod.collapse)
  have m1: "map (\<lambda>c. if fst c = col then (fst c, fill_col lib m (snd c)) else c) t
      = map (\<lambda>c. if fst c = col then (fst c, fill_col lib m s) else c) t"
    by (rule map_cong) (auto simp: only)
  have idem: "fill_col lib m s = s \<Longrightarrow> map (\<lambda>c. if fst c = col then (fst c, fill_col lib m s) else c) t = t"
    by (rule map_idI) (auto dest: only simp: prod_eq_iff)
  obtain r where r: "filled_value lib m s = Inr r" using filled_value_total by blast
  show ?thesis
  proof (cases "isnull_sum s > 0")
    case False
    then have "fill_col lib m s = s" by (simp add: fill_col_def)
    with False g idem show ?thesis by (simp add: process_col_def m1)
  next
    case True
    show ?thesis
    proof (cases r)
      case None
      then have "fill_col lib m s = s" using r by (simp add: fill_col_def)
      with True g r None idem show ?thesis by (simp add: process_col_def m1)
    next
      case (Some v)
      show ?thesis
      proof (cases "copy_on_write lib")
        case cow: True
        then have "fill_col lib m s = s" using r Some True by (simp add: fill_col_def)
        with True g r Some cow idem show ?thesis by (simp add: process_col_def m1)
      next
        case cow: False
        then have "fill_col lib m s = fillna v s" using r Some True by (simp add: fill_col_def)
        with True g r Some cow show ?thesis
          by (simp add: process_col_def m1 setitem_map [OF assms(1)])
      qed
    qed
  qed
qed

lemma fill_loop_map:
  assumes "a < length h" and "distinct (map fst (h ! a))" and "distinct cols"
    and "set cols \<subseteq> fst ` set (h ! a)"
  shows "fill_loop lib m cols a h =
    Inr (h[a := map (\<lambda>c. if fst c \<in> set cols then (fst c, fill_col lib m (snd c)) else c) (h ! a)])"
  using assms
proof (induction cols arbitrary: h)
  case Nil
  then show ?case by simp
next
  case (Cons col cols)
  let ?t = "h ! a"
  let ?t' = "map (\<lambda>c. if fst c = col then (fst c, fill_col lib m (snd c)) else c) ?t"
  have names: "map fst ?t' = map fst ?t" by (simp add: comp_def if_distrib cong: if_cong)
  have step: "process_col lib m col ?t = Inr ?t'"
    using Cons.prems by (intro process_col_map) auto
  have at: "h[a := ?t'] ! a = ?t'" using Cons.prems(1) by simp
  have "fill_loop lib m cols a (h[a := ?t']) =
      Inr ((h[a := ?t'])[a := map (\<lambda>c. if fst c \<in> set cols then (fst c, fill_col lib m (snd c)) else c) (h[a := ?t'] ! a)])"
  proof (rule Cons.IH)
    show "a < length (h[a := ?t'])" using Cons.prems(1) by simp
    show "distinct (map fst (h[a := ?t'] ! a))" unfolding at names by (rule Cons.prems(2))
    show "distinct cols" using Cons.prems(3) by simp
    have "fst ` set ?t' = fst ` set ?t" using names by (metis set_map)
    then show "set cols \<subseteq> fst ` set (h[a := ?t'] ! a)" unfolding at using Cons.prems(4) by simp
  qed
  then have ih: "fill_loop lib m cols a (h[a := ?t']) =
      Inr (h[a := map (\<lambda>c. if fst c \<in> set cols then (fst c, fill_col lib m (snd c)) else c) ?t'])"
    by (simp only: at list_update_overwrite)
  have both: "map (\<lambda>c. if fst c \<in> set cols then (fst c, fill_col lib m (snd c)) else c) ?t'
      = map (\<lambda>c. if fst c \<in> set (col # cols) then (fst c, fill_col lib m (snd c)) else c) ?t"
    using Cons.prems(3) by auto
  have "fill_loop lib m (col # cols) a h = fill_loop lib m cols a (h[a := ?t'])"
    by (simp add: step)
  then show ?case by (simp only: ih both)
qed

subsection \<open>Which columns the loop visits\<close>

lemma cols_distinct: "distinct (map fst t) \<Longrightarrow> distinct (cols_to_process ex t)"
  by (simp add: cols_to_process_def distinct_map_filter)

lemma cols_subset: "set (cols_to_process ex t) \<subseteq> fst ` set t"
  by (auto simp: cols_to_process_def)

lemma cols_member:
  "distinct (map fst t) \<Longrightarrow> c \<in> set t \<Longrightarrow>
   fst c \<in> set (cols_to_process ex t) \<longleftrightarrow> (if ex then is_np_number (snd c) else True)"
proof -
  assume d: "distinct (map fst t)" and c: "c \<in> set t"
  have "\<And>c'. c' \<in> set t \<Longrightarrow> fst c' = fst c \<Longrightarrow> c' = c"
    using d c by (metis eq_key_imp_eq_value prod.collapse)
  then show ?thesis using c by (auto simp: cols_to_process_def)
qed

subsection \<open>The block as a map over the columns\<close>

lemma clean_data_eq:
  assumes "a < length h" and "well_formed (h ! a)"
  shows "clean_data lib m ex a h = Inr (length h, h @ [fill_table lib m ex (h ! a)])"
proof -
  let ?t = "h ! a"
  let ?h1 = "h @ [?t]"
  have d: "distinct (map fst ?t)" using assms(2) by (simp add: well_formed_def)
  have at: "?h1 ! length h = ?t" by simp
  have loop: "fill_loop lib m (cols_to_process ex ?t) (length h) ?h1 =
      Inr (?h1[length h := map (\<lambda>c. if fst c \<in> set (cols_to_process ex ?t)
             then (fst c, fill_col lib m (snd c)) else c) (?h1 ! length h)])"
    by (rule fill_loop_map) (simp_all only: at d cols_distinct cols_subset length_append_singleton lessI)
  have same: "map (\<lambda>c. if fst c \<in> set (cols_to_process ex ?t)
             then (fst c, fill_col lib m (snd c)) else c) ?t = fill_table lib m ex ?t"
    unfolding fill_table_def in_scope_def
    by (rule map_cong) (simp_all add: cols_member [OF d])
  have "clean_data lib m ex a h = Inr (length h, ?h1[length h := fill_table lib m ex ?t])"
    using assms(1) loop unfolding at same
    by (simp add: clean_data_def df_copy_def nth_append)
  then show ?thesis by simp
qed

lemma impute_eq: "well_formed t \<Longrightarrow> impute lib m ex t = Inr (fill_table lib m ex t)"
  using clean_data_eq [of 0 "[t]" lib m ex] by (simp add: impute_def)

lemma fill_table_names: "map fst (fill_table lib m ex t) = map fst t"
  by (simp add: fill_table_def comp_def if_distrib cong: if_cong)

lemma fill_table_length: "length (fill_table lib m ex t) = length t"
  by (simp add: fill_table_def)

lemma fill_table_nth:
  "i < length t \<Longrightarrow> fill_table lib m ex t ! i =
     (if in_scope ex (snd (t ! i)) then (fst (t ! i), fill_col lib m (snd (t ! i))) else t ! i)"
  by (simp add: fill_table_def)

lemma fill_table_getitem:
  assumes "well_formed t" and "(col, s) \<in> set t"
  shows "getitem (fill_table lib m ex t) col = Inr (if in_scope ex s then fill_col lib m s else s)"
proof -
  have "distinct (map fst (fill_table lib m ex t))"
    using assms(1) by (simp add: fill_table_names well_formed_def)
  moreover have "(col, if in_scope ex s then fill_col lib m s else s) \<in> set (fill_table lib m ex t)"
    using assms(2) by (force simp: fill_table_def)
  ultimately show ?thesis by (rule getitem_distinct)
qed

subsection \<open>The loop body on one column\<close>

lemma count_None_dropna: "count_list xs None = 0 \<Longrightarrow> fill_missing v xs = xs"
proof -
  assume "count_list xs None = 0"
  then have "None \<notin> set xs" by (simp add: count_list_0_iff)
  have "(case c of None \<Rightarrow> Some v | Some x \<Rightarrow> Some x) = c" if "c \<in> set xs" for c
  proof (cases c)
    case None
    with that \<open>None \<notin> set xs\<close> show ?thesis by simp
  next
    case (Some x)
    then show ?thesis by simp
  qed
  then show ?thesis unfolding fill_missing_def by (rule map_idI)
qed

lemma count_None_fill_missing: "count_list (fill_missing v xs) None = 0"
  by (auto simp: fill_missing_def count_list_0_iff split: option.splits)

lemma isnull_fillna_float: "isnull_sum (Float64 (fill_missing v xs)) = 0"
  by (simp add: isnull_sum_def count_None_fill_missing)

lemma isnull_fillna_object: "isnull_sum (Object (fill_missing v xs)) = 0"
  by (simp add: isnull_sum_def count_None_fill_missing)

lemma fill_col_fixed: "isnull_sum s = 0 \<Longrightarrow> fill_col lib m s = s"
  by (simp add: fill_col_def)

lemma fillna_cases:
  "fillna v s = s \<or> isnull_sum (fillna v s) = 0"
  by (cases "(v, s)" rule: fillna.cases) (simp_all add: isnull_fillna_float isnull_fillna_object)

lemma fill_col_cases: "fill_col lib m s = s \<or> isnull_sum (fill_col lib m s) = 0"
proof (cases "isnull_sum s > 0")
  case False
  then show ?thesis by (simp add: fill_col_def)
next
  case True
  obtain r where r: "filled_value lib m s = Inr r" using filled_value_total by blast
  show ?thesis
  proof (cases r)
    case None
    with r True show ?thesis by (simp add: fill_col_def)
  next
    case (Some v)
    with r True have "fill_col lib m s = (if copy_on_write lib then s else fillna v s)"
      by (simp add: fill_col_def)
    then show ?thesis using fillna_cases [of v s] by (cases "copy_on_write lib") simp_all
  qed
qed

lemma fill_col_idem: "fill_col lib m (fill_col lib m s) = fill_col lib m s"
  using fill_col_cases [of lib m s] by (auto simp: fill_col_fixed)

lemma fillna_kind: "is_np_number (fillna v s) = is_np_number s"
  by (cases "(v, s)" rule: fillna.cases) (simp_all add: is_np_number_def)

lemma fill_col_kind: "is_np_number (fill_col lib m s) = is_np_number s"
  by (simp add: fill_col_def fillna_kind split: sum.split option.split)

lemma fill_table_idem: "fill_table lib m ex (fill_table lib m ex t) = fill_table lib m ex t"
  by (simp add: fill_table_def in_scope_def fill_col_kind fill_col_idem)

lemma fill_col_cow: "copy_on_write lib \<Longrightarrow> fill_col lib m s = s"
  by (simp add: fill_col_def split: sum.split option.split)



lemma fill_col_text: "m \<noteq> Mode \<Longrightarrow> fill_col lib m (Object xs) = Object xs"
  by (cases m) (simp_all add: fill_col_def filled_value_def is_numeric_dtype_def)

subsection \<open>The mode\<close>

lemma fold_max_ge_init: "b \<le> fold max ys (b::nat)"
proof (induction ys arbitrary: b)
  case Nil
  show ?case by simp
next
  case (Cons y ys)
  have "b \<le> max y b" by simp
  also have "\<dots> \<le> fold max ys (max y b)" by (rule Cons.IH)
  finally show ?case by simp
qed

lemma fold_max_ge: "y \<in> set ys \<Longrightarrow> y \<le> fold max ys (b::nat)"
proof (induction ys arbitrary: b)
  case Nil
  then show ?case by simp
next
  case (Cons z ys)
  show ?case
  proof (cases "y = z")
    case True
    have "y \<le> max z b" using True by simp
    also have "\<dots> \<le> fold max ys (max z b)" by (rule fold_max_ge_init)
    finally show ?thesis by simp
  next
    case False
    with Cons.prems have "y \<in> set ys" by simp
    then show ?thesis using Cons.IH by simp
  qed
qed

lemma fold_max_in: "fold max ys (b::nat) = b \<or> fold max ys b \<in> set ys"
proof (induction ys arbitrary: b)
  case Nil
  show ?case by simp
next
  case (Cons z ys)
  from Cons.IH [of "max z b"] show ?case
    by (auto simp: max_def split: if_splits)
qed

lemma count_list_pos: "x \<in> set xs \<Longrightarrow> 0 < count_list xs x"
  using count_list_0_iff [of xs x] by auto

lemma max_count_ge: "count_list xs v \<le> max_count xs"
proof (cases "v \<in> set xs")
  case True
  then have "count_list xs v \<in> set (map (count_list xs) xs)" by simp
  then show ?thesis unfolding max_count_def by (rule fold_max_ge)
next
  case False
  then show ?thesis by (simp add: count_list_0_iff)
qed

lemma max_count_attained:
  assumes "xs \<noteq> []"
  shows "\<exists>v\<in>set xs. count_list xs v = max_count xs"
proof -
  from assms obtain x where x: "x \<in> set xs" by (cases xs) auto
  then have "0 < count_list xs x" by (rule count_list_pos)
  with max_count_ge [of xs x] have pos: "max_count xs \<noteq> 0" by simp
  from fold_max_in [of "map (count_list xs) xs" 0] pos
  have "max_count xs \<in> set (map (count_list xs) xs)" by (simp add: max_count_def)
  then show ?thesis by auto
qed

lemma set_mode_values:
  "set (mode_values xs) = {v \<in> set xs. count_list xs v = max_count xs}"
  by (auto simp: mode_values_def)

lemma mode_values_nonempty: "xs \<noteq> [] \<Longrightarrow> mode_values xs \<noteq> []"
  using max_count_attained [of xs] set_mode_values [of xs] by fastforce

lemma mode_values_empty: "mode_values [] = []"
  by (simp add: mode_values_def)

lemma mode_values_head:
  assumes "mode_values xs = v # vs"
  shows "v \<in> set xs" and "count_list xs w \<le> count_list xs v"
    and "count_list xs w = count_list xs v \<Longrightarrow> v \<le> w"
proof -
  have "v \<in> set (mode_values xs)" using assms by simp
  then have v: "v \<in> set xs" "count_list xs v = max_count xs"
    by (simp_all add: set_mode_values)
  show "v \<in> set xs" by (rule v(1))
  show "count_list xs w \<le> count_list xs v" by (simp add: v(2) max_count_ge)
  assume eq: "count_list xs w = count_list xs v"
  have "0 < count_list xs v" using v(1) by (rule count_list_pos)
  with eq have "w \<in> set xs" by (metis count_list_0_iff less_numeral_extra(3))
  with eq v(2) have "w \<in> set (mode_values xs)" by (simp add: set_mode_values)
  moreover have "sorted (v # vs)" using assms [symmetric] by (simp add: mode_values_def)
  ultimately show "v \<le> w" using assms by auto
qed

lemma fill_col_mode_object:
  assumes "\<not> copy_on_write lib" and "mode_values (dropna xs) = v # vs"
  shows "fill_col lib Mode (Object xs) = Object (fill_missing v xs)"
proof (cases "count_list xs None = 0")
  case True
  then show ?thesis by (simp add: fill_col_def isnull_sum_def count_None_dropna)
next
  case False
  with assms show ?thesis
    by (simp add: fill_col_def isnull_sum_def filled_value_def series_mode_def)
qed

lemma fill_col_mode_float:
  assumes "\<not> copy_on_write lib" and "mode_values (dropna xs) = v # vs"
  shows "fill_col lib Mode (Float64 xs) = Float64 (fill_missing v xs)"
proof (cases "count_list xs None = 0")
  case True
  then show ?thesis by (simp add: fill_col_def isnull_sum_def count_None_dropna)
next
  case False
  with assms show ?thesis
    by (simp add: fill_col_def isnull_sum_def filled_value_def series_mode_def)
qed

subsection \<open>The claims about the cleaner\<close>

lemma remaining_missing_ge: "(col, s) \<in> set t \<Longrightarrow> isnull_sum s \<le> remaining_missing t"
proof -
  assume "(col, s) \<in> set t"
  then have "isnull_sum s \<in> set (map (\<lambda>c. isnull_sum (snd c)) t)" by force
  then show ?thesis unfolding remaining_missing_def by (rule member_le_sum_list) simp
qed









text \<open>
  C2 (as amended). Take a library without copy-on-write and the method Mode. On every
  well-formed table the block ends without an exception and returns a table with the
  same labels in which every column in scope that has a present value (a text column
  when non-numeric columns are not excluded, a float64 column always) has its missing
  cells filled with one value \<open>v\<close>: a present value of the column, at least as
  frequent as every other value, and the least in ascending order among the values as
  frequent as itself.
\<close>

theorem mode_fills_with_least_most_frequent_value:
  assumes "well_formed t" and "\<not> copy_on_write lib"
  shows "\<exists>out. impute lib Mode ex t = Inr out \<and> map fst out = map fst t
     \<and> (\<forall>col xs. (col, Object xs) \<in> set t \<and> \<not> ex \<and> dropna xs \<noteq> [] \<longrightarrow>
          (\<exists>v. getitem out col = Inr (Object (fill_missing v xs))
             \<and> v \<in> set (dropna xs)
             \<and> (\<forall>w. count_list (dropna xs) w \<le> count_list (dropna xs) v)
             \<and> (\<forall>w. count_list (dropna xs) w = count_list (dropna xs) v \<longrightarrow> v \<le> w)))
     \<and> (\<forall>col xs. (col, Float64 xs) \<in> set t \<and> dropna xs \<noteq> [] \<longrightarrow>
          (\<exists>v. getitem out col = Inr (Float64 (fill_missing v xs))
             \<and> v \<in> set (dropna xs)
             \<and> (\<forall>w. count_list (dropna xs) w \<le> count_list (dropna xs) v)
             \<and> (\<forall>w. count_list (dropna xs) w = count_list (dropna xs) v \<longrightarrow> v \<le> w)))"
proof -
  let ?out = "fill_table lib Mode ex t"
  have obj: "\<exists>v. getitem ?out col = Inr (Object (fill_missing v xs))
             \<and> v \<in> set (dropna xs)
             \<and> (\<forall>w. count_list (dropna xs) w \<le> count_list (dropna xs) v)
             \<and> (\<forall>w. count_list (dropna xs) w = count_list (dropna xs) v \<longrightarrow> v \<le> w)"
    if "(col, Object xs) \<in> set t" and "\<not> ex" and "dropna xs \<noteq> []" for col xs
  proof -
    from that(3) obtain v vs where m: "mode_values (dropna xs) = v # vs"
      using mode_values_nonempty [of "dropna xs"] by (cases "mode_values (dropna xs)") auto
    have "getitem ?out col = Inr (Object (fill_missing v xs))"
      using fill_table_getitem [OF assms(1) that(1), of lib Mode ex] that(2)
      by (simp add: in_scope_def fill_col_mode_object [OF assms(2) m])
    then show ?thesis using mode_values_head [OF m] by blast
  qed
  have num: "\<exists>v. getitem ?out col = Inr (Float64 (fill_missing v xs))
             \<and> v \<in> set (dropna xs)
             \<and> (\<forall>w. count_list (dropna xs) w \<le> count_list (dropna xs) v)
             \<and> (\<forall>w. count_list (dropna xs) w = count_list (dropna xs) v \<longrightarrow> v \<le> w)"
    if "(col, Float64 xs) \<in> set t" and "dropna xs \<noteq> []" for col xs
  proof -
    from that(2) obtain v vs where m: "mode_values (dropna xs) = v # vs"
      using mode_values_nonempty [of "dropna xs"] by (cases "mode_values (dropna xs)") auto
    have "getitem ?out col = Inr (Float64 (fill_missing v xs))"
      using fill_table_getitem [OF assms(1) that(1), of lib Mode ex]
      by (simp add: in_scope_def is_np_number_def fill_col_mode_float [OF assms(2) m])
    then show ?thesis using mode_values_head [OF m] by blast
  qed
  have "impute lib Mode ex t = Inr ?out" by (rule impute_eq [OF assms(1)])
  moreover have "map fst ?out = map fst t" by (rule fill_table_names)
  ultimately show ?thesis using obj num by blast
qed

theorem mode_fills_with_least_most_frequent_value_witness:
  "impute pandas_2 Mode False
     [(''Grade'', Object [Some ''b'', Some ''a'', None, Some ''c'', None]),
      (''Score'', Float64 [Some (Finite 3), None, Some (Finite 1), Some (Finite 1), Some (Finite 3)])] =
   Inr [(''Grade'', Object [Some ''b'', Some ''a'', Some ''a'', Some ''c'', Some ''a'']),
        (''Score'', Float64 [Some (Finite 3), Some (Finite 1), Some (Finite 1), Some (Finite 1),
                             Some (Finite 3)])]"
proof -
  have wf: "well_formed [(''Grade'', Object [Some ''b'', Some ''a'', None, Some ''c'', None]),
      (''Score'', Float64 [Some (Finite 3), None, Some (Finite 1), Some (Finite 1), Some (Finite 3)])]"
    by (simp add: well_formed_def)
  have nc: "\<not> copy_on_write pandas_2" by (simp add: pandas_2_def)
  have e: "impute pandas_2 Mode False
     [(''Grade'', Object [Some ''b'', Some ''a'', None, Some ''c'', None]),
      (''Score'', Float64 [Some (Finite 3), None, Some (Finite 1), Some (Finite 1), Some (Finite 3)])] =
   Inr [(''Grade'', Object [Some ''b'', Some ''a'', Some ''a'', Some ''c'', Some ''a'']),
        (''Score'', Float64 [Some (Finite 3), Some (Finite 1), Some (Finite 1), Some (Finite 1),
                             Some (Finite 3)])]"
    by code_simp
  show ?thesis
    using mode_fills_with_least_most_frequent_value [OF wf nc, of False] by - (rule e)
qed

text \<open>
  C2 as stated fails in two ways. On a tie: in the column [b, a, NaN] both values
  occur once, the value met first in row order is b, and the missing cell is filled
  with a. And with copy-on-write no cell is filled: the column comes back as it was.
\<close>

theorem mode_tie_first_encountered_counterexample:
  "impute pandas_2 Mode False [(''Grade'', Object [Some ''b'', Some ''a'', None])] =
     Inr [(''Grade'', Object [Some ''b'', Some ''a'', Some ''a''])]
   \<and> spec_mode_first_encountered (dropna [Some ''b'', Some ''a'', None]) = Some ''b''
   \<and> impute pandas_3 Mode False [(''Grade'', Object [Some ''b'', Some ''a'', None])] =
     Inr [(''Grade'', Object [Some ''b'', Some ''a'', None])]"
  by code_simp

text \<open>
  C3. For every library, method and scope, in every store, the block run on the
  address of a well-formed table ends without an exception; the cleaned table is a new
  object at a fresh address, different from the input's, and every object the store
  held before, the input table among them, is as it was.
\<close>

theorem clean_data_leaves_input_untouched:
  assumes "df < length h" and "well_formed (h ! df)"
  shows "\<exists>out. impute lib fill_method exclude_cols (h ! df) = Inr out
     \<and> clean_data lib fill_method exclude_cols df h = Inr (length h, h @ [out])
     \<and> (h @ [out]) ! df = h ! df
     \<and> take (length h) (h @ [out]) = h
     \<and> length h \<noteq> df"
  using assms clean_data_eq [OF assms, of lib fill_method exclude_cols]
    impute_eq [OF assms(2), of lib fill_method exclude_cols]
  by (simp add: nth_append)

theorem clean_data_leaves_input_untouched_witness:
  "clean_data pandas_2 Mean False 0 [[(''Age'', Float64 [Some (Finite 28), None, Some (Finite 30)])]] =
     Inr (1, [[(''Age'', Float64 [Some (Finite 28), None, Some (Finite 30)])],
              [(''Age'', Float64 [Some (Finite 28), Some (Finite 29), Some (Finite 30)])]])"
proof -
  have a: "0 < length [[(''Age'', Float64 [Some (Finite 28), None, Some (Finite 30)])]]" by simp
  have wf: "well_formed ([[(''Age'', Float64 [Some (Finite 28), None, Some (Finite 30)])]] ! 0)"
    by (simp add: well_formed_def)
  have e: "clean_data pandas_2 Mean False 0
      [[(''Age'', Float64 [Some (Finite 28), None, Some (Finite 30)])]] =
     Inr (1, [[(''Age'', Float64 [Some (Finite 28), None, Some (Finite 30)])],
              [(''Age'', Float64 [Some (Finite 28), Some (Finite 29), Some (Finite 30)])]])"
    by code_simp
  show ?thesis
    using clean_data_leaves_input_untouched [OF a wf, of pandas_2 Mean False] by - (rule e)
qed

text \<open>
  C4. For every library, with the method Mean or Median, whatever the scope, on a
  well-formed table with a text column that has a missing cell, the block ends without
  an exception, that column comes back as it was, the count of remaining missing cells
  is positive and the message shown is the warning.
\<close>

theorem mean_median_leave_text_columns_missing:
  assumes "well_formed t" and "fill_method = Mean \<or> fill_method = Median"
    and "(col, Object xs) \<in> set t" and "None \<in> set xs"
  shows "\<exists>out. impute lib fill_method exclude_cols t = Inr out
     \<and> getitem out col = Inr (Object xs)
     \<and> 0 < remaining_missing out
     \<and> (\<exists>txt. report out = StWarning txt)"
proof -
  let ?out = "fill_table lib fill_method exclude_cols t"
  have m: "fill_method \<noteq> Mode" using assms(2) by auto
  have g: "getitem ?out col = Inr (Object xs)"
    using fill_table_getitem [OF assms(1,3), of lib fill_method exclude_cols]
    by (simp add: fill_col_text [OF m])
  have "(col, Object xs) \<in> set ?out"
    using assms(3) by (force simp: fill_table_def fill_col_text [OF m])
  then have "isnull_sum (Object xs) \<le> remaining_missing ?out" by (rule remaining_missing_ge)
  moreover have "0 < isnull_sum (Object xs)"
    using assms(4) by (simp add: isnull_sum_def count_list_pos)
  ultimately have r: "0 < remaining_missing ?out" by simp
  then have "\<exists>txt. report ?out = StWarning txt" by (simp add: report_def)
  with g r impute_eq [OF assms(1), of lib fill_method exclude_cols] show ?thesis by simp
qed

theorem mean_median_leave_text_columns_missing_witness:
  "impute pandas_2 Median False
     [(''Name'', Object [Some ''Bav1'', None, Some ''Kumar'']),
      (''Age'', Float64 [Some (Finite 28), None, Some (Finite 30)])] =
   Inr [(''Name'', Object [Some ''Bav1'', None, Some ''Kumar'']),
        (''Age'', Float64 [Some (Finite 28), Some (Finite 29), Some (Finite 30)])]
   \<and> remaining_missing [(''Name'', Object [Some ''Bav1'', None, Some ''Kumar'']),
        (''Age'', Float64 [Some (Finite 28), Some (Finite 29), Some (Finite 30)])] = 1"
proof -
  have wf: "well_formed [(''Name'', Object [Some ''Bav1'', None, Some ''Kumar'']),
      (''Age'', Float64 [Some (Finite 28), None, Some (Finite 30)])]"
    by (simp add: well_formed_def)
  have m: "Median = Mean \<or> Median = Median" by simp
  have mem: "(''Name'', Object [Some ''Bav1'', None, Some ''Kumar'']) \<in>
      set [(''Name'', Object [Some ''Bav1'', None, Some ''Kumar'']),
      (''Age'', Float64 [Some (Finite 28), None, Some (Finite 30)])]" by simp
  have miss: "None \<in> set [Some ''Bav1'', None, Some ''Kumar'']" by simp
  have e: "impute pandas_2 Median False
     [(''Name'', Object [Some ''Bav1'', None, Some ''Kumar'']),
      (''Age'', Float64 [Some (Finite 28), None, Some (Finite 30)])] =
   Inr [(''Name'', Object [Some ''Bav1'', None, Some ''Kumar'']),
        (''Age'', Float64 [Some (Finite 28), Some (Finite 29), Some (Finite 30)])]
   \<and> remaining_missing [(''Name'', Object [Some ''Bav1'', None, Some ''Kumar'']),
        (''Age'', Float64 [Some (Finite 28), Some (Finite 29), Some (Finite 30)])] = 1"
    by code_simp
  show ?thesis
    using mean_median_leave_text_columns_missing [OF wf m mem miss, of pandas_2 False]
    by - (rule e)
qed

text \<open>
  C5. For every library, with non-numeric columns excluded, whatever the method, the
  block returns a table of the same length in which every column that is not of a
  numeric dtype (int64 or float64) stands at its place exactly as in the input, missing
  cells included.
\<close>

theorem excluded_columns_unchanged:
  assumes "well_formed t" and "i < length t" and "\<not> is_np_number (snd (t ! i))"
  shows "\<exists>out. impute lib fill_method True t = Inr out
     \<and> length out = length t
     \<and> out ! i = t ! i"
  using impute_eq [OF assms(1), of lib fill_method True] assms(2,3)
  by (simp add: fill_table_length fill_table_nth in_scope_def)

theorem excluded_columns_unchanged_witness:
  "impute pandas_2 Mode True
     [(''City'', Object [Some ''Pune'', None, Some ''Pune'']),
      (''Age'', Float64 [Some (Finite 30), None, Some (Finite 28)])] =
   Inr [(''City'', Object [Some ''Pune'', None, Some ''Pune'']),
        (''Age'', Float64 [Some (Finite 30), Some (Finite 28), Some (Finite 28)])]"
proof -
  have wf: "well_formed [(''City'', Object [Some ''Pune'', None, Some ''Pune'']),
      (''Age'', Float64 [Some (Finite 30), None, Some (Finite 28)])]"
    by (simp add: well_formed_def)
  have i: "0 < length [(''City'', Object [Some ''Pune'', None, Some ''Pune'']),
      (''Age'', Float64 [Some (Finite 30), None, Some (Finite 28)])]" by simp
  have k: "\<not> is_np_number (snd ([(''City'', Object [Some ''Pune'', None, Some ''Pune'']),
      (''Age'', Float64 [Some (Finite 30), None, Some (Finite 28)])] ! 0))"
    by (simp add: is_np_number_def)
  have e: "impute pandas_2 Mode True
     [(''City'', Object [Some ''Pune'', None, Some ''Pune'']),
      (''Age'', Float64 [Some (Finite 30), None, Some (Finite 28)])] =
   Inr [(''City'', Object [Some ''Pune'', None, Some ''Pune'']),
        (''Age'', Float64 [Some (Finite 30), Some (Finite 28), Some (Finite 28)])]"
    by code_simp
  show ?thesis
    using excluded_columns_unchanged [OF wf i k, of pandas_2 Mode] by - (rule e)
qed

text \<open>
  C6. For every library, method and scope, running the engine on its own output
  returns that output unchanged. This holds on every well-formed table, eligible
  columns or not: a column the first run filled has no missing cell left, and a column
  the first run left alone is left alone again.
\<close>

theorem impute_idempotent:
  assumes "well_formed t"
  shows "\<exists>out. impute lib fill_method exclude_cols t = Inr out
     \<and> well_formed out
     \<and> impute lib fill_method exclude_cols out = Inr out"
proof -
  let ?out = "fill_table lib fill_method exclude_cols t"
  have wf: "well_formed ?out" using assms by (simp add: well_formed_def fill_table_names)
  show ?thesis
    using impute_eq [OF assms, of lib fill_method exclude_cols]
      impute_eq [OF wf, of lib fill_method exclude_cols]
    by (simp add: fill_table_idem wf)
qed

theorem impute_idempotent_witness:
  "impute pandas_2 Median False example_table = Inr example_cleaned
   \<and> impute pandas_2 Median False example_cleaned = Inr example_cleaned"
proof -
  have wf: "well_formed example_table" by (simp add: well_formed_def example_table_def)
  have e: "impute pandas_2 Median False example_table = Inr example_cleaned
   \<and> impute pandas_2 Median False example_cleaned = Inr example_cleaned"
    by code_simp
  show ?thesis
    using impute_idempotent [OF wf, of pandas_2 Median False] by - (rule e)
qed

end
